theory Spec2Isabelle
  imports Main "HOL-Library.Word"
begin

unbundle bit_operations_syntax

section \<open>The inotify directory watcher of AppImageLauncher\<close>

text \<open>
  A shallow embedding of \<^verbatim>\<open>src/fswatcher/filesystemwatcher.cpp\<close>: the class
  \<^verbatim>\<open>FileSystemWatcher::PrivateData\<close> (the table \<^verbatim>\<open>watchFdMap\<close>, the timer, the
  inotify descriptor) and \<^verbatim>\<open>FileSystemWatcher::readEvents\<close>.

  The operating system and Qt are outside the file. They enter the model as a record of
  functions over an abstract kernel state \<open>'os\<close>, so that every theorem holds for whatever
  the kernel answers. Bytes are \<^typ>\<open>char\<close> (8 bits), a C buffer is a \<^typ>\<open>string\<close>;
  \<^verbatim>\<open>QString\<close> values are kept as the byte strings they are built from.
\<close>

subsection \<open>Constants of the system headers\<close>

definition IN_CLOSE_WRITE :: "32 word" where "IN_CLOSE_WRITE = 0x00000008"
definition IN_MOVED_FROM :: "32 word" where "IN_MOVED_FROM = 0x00000040"
definition IN_MOVED_TO :: "32 word" where "IN_MOVED_TO = 0x00000080"
definition IN_MOVE :: "32 word" where "IN_MOVE = IN_MOVED_FROM OR IN_MOVED_TO"
definition IN_CREATE :: "32 word" where "IN_CREATE = 0x00000100"
definition IN_DELETE :: "32 word" where "IN_DELETE = 0x00000200"
definition IN_IGNORED :: "32 word" where "IN_IGNORED = 0x00008000"

definition EAGAIN :: int where "EAGAIN = 11"
definition ENOENT :: int where "ENOENT = 2"
definition EINVAL :: int where "EINVAL = 22"
definition ENOSPC :: int where "ENOSPC = 28"

definition NUL :: char where "NUL = CHR 0x00"

text \<open>\<^verbatim>\<open>sizeof(struct inotify_event)\<close>: four 32-bit fields before the name.\<close>

definition sizeof_inotify_event :: nat where "sizeof_inotify_event = 16"

subsection \<open>Data\<close>

text \<open>\<^verbatim>\<open>enum EVENT_TYPES\<close>.\<close>

definition fileChangeEvents :: "32 word" where
  "fileChangeEvents = IN_CLOSE_WRITE OR IN_MOVE"

definition fileRemovalEvents :: "32 word" where
  "fileRemovalEvents = IN_DELETE OR IN_MOVED_FROM"

text \<open>\<^verbatim>\<open>class INotifyEvent\<close>: a flag mask and the absolute path built for the record.\<close>

datatype INotifyEvent = INotifyEvent (mask: "32 word") (path: string)

text \<open>
  A \<^verbatim>\<open>QDir\<close> is the path it was built from; the default-constructed \<^verbatim>\<open>QDir()\<close>
  holds the empty path (Qt resolves it to the current directory).
\<close>

datatype QDir = QDir string

definition default_QDir :: QDir where "default_QDir = QDir []"

text \<open>
  \<^verbatim>\<open>struct inotify_event\<close> as it lies in the buffer: \<^verbatim>\<open>int wd\<close>, then
  \<^verbatim>\<open>uint32_t mask, cookie, len\<close>, then \<^verbatim>\<open>char name[]\<close>. The name is kept as the
  C string that \<^verbatim>\<open>QString(currentEvent->name)\<close> reads: the bytes before the first NUL.
\<close>

record inotify_event =
  ie_wd :: "32 word"
  ie_mask :: "32 word"
  ie_cookie :: "32 word"
  ie_len :: "32 word"
  ie_name :: string

text \<open>
  What the code can raise. \<^verbatim>\<open>FileSystemWatcherError\<close> carries its message.
  \<open>BufferOverrun\<close> is not an exception of the program: it marks a run in which the loop
  would read bytes outside the buffer it was given, where C defines nothing.
\<close>

datatype error = FileSystemWatcherError string | BufferOverrun

text \<open>The two Qt signals of \<^verbatim>\<open>FileSystemWatcher\<close>.\<close>

datatype signal = fileChanged string | fileRemoved string

text \<open>
  The collaborators. \<open>read_fd os n\<close> is \<^verbatim>\<open>read(fd, buffer, n)\<close> followed by the read of
  \<^verbatim>\<open>errno\<close>: it gives the return value, \<^verbatim>\<open>errno\<close> and the contents of the array
  \<^verbatim>\<open>buffer\<close> after the call (the bytes read, then whatever the array holds behind them).
  \<open>inotify_add_watch\<close> and \<open>inotify_rm_watch\<close> give the return value and \<^verbatim>\<open>errno\<close>;
  \<open>dir_exists\<close> is \<^verbatim>\<open>QDir::exists\<close>, \<open>absolutePath\<close> is \<^verbatim>\<open>QDir::absolutePath\<close>.
\<close>

record 'os environment =
  read_fd :: "'os \<Rightarrow> nat \<Rightarrow> (int \<times> int \<times> string) \<times> 'os"
  inotify_add_watch :: "'os \<Rightarrow> string \<Rightarrow> 32 word \<Rightarrow> (int \<times> int) \<times> 'os"
  inotify_rm_watch :: "'os \<Rightarrow> int \<Rightarrow> (int \<times> int) \<times> 'os"
  dir_exists :: "'os \<Rightarrow> QDir \<Rightarrow> bool"
  absolutePath :: "QDir \<Rightarrow> string"
  strerror :: "int \<Rightarrow> string"

text \<open>
  \<^verbatim>\<open>PrivateData\<close>: the timer (running or not), the table, the kernel behind \<^verbatim>\<open>fd\<close>,
  and the lines written to \<^verbatim>\<open>std::cerr\<close>. \<^verbatim>\<open>std::map<int, QDir>\<close> is a list of
  entries in increasing key order, one entry per key (\<open>map_ok\<close> below). The set
  \<^verbatim>\<open>watchedDirectories\<close>, read by the batch \<^verbatim>\<open>startWatching()\<close> alone, is left out.
\<close>

record 'os PrivateData =
  eventsLoopTimer :: bool
  watchFdMap :: "(int \<times> QDir) list"
  kernel :: "'os"
  cerr :: "string list"

subsection \<open>std::map\<close>

definition map_ok :: "(int \<times> 'v) list \<Rightarrow> bool" where
  "map_ok m = sorted_wrt (<) (map fst m)"

text \<open>\<^verbatim>\<open>m[k] = v\<close>.\<close>

fun map_assign :: "int \<Rightarrow> 'v \<Rightarrow> (int \<times> 'v) list \<Rightarrow> (int \<times> 'v) list" where
  "map_assign k v [] = [(k, v)]"
| "map_assign k v ((k', v') # m) =
     (if k < k' then (k, v) # (k', v') # m
      else if k = k' then (k, v) # m
      else (k', v') # map_assign k v m)"

text \<open>\<^verbatim>\<open>m.erase(k)\<close>.\<close>

definition map_erase :: "int \<Rightarrow> (int \<times> 'v) list \<Rightarrow> (int \<times> 'v) list" where
  "map_erase k m = filter (\<lambda>e. fst e \<noteq> k) m"

text \<open>
  \<^verbatim>\<open>m[k]\<close> read as a value: \<^verbatim>\<open>std::map::operator[]\<close> inserts a default-constructed
  value when the key is absent, and returns the stored value.
\<close>

definition map_index :: "(int \<times> QDir) list \<Rightarrow> int \<Rightarrow> QDir \<times> (int \<times> QDir) list" where
  "map_index m k =
     (case map_of m k of
        Some d \<Rightarrow> (d, m)
      | None \<Rightarrow> (default_QDir, map_assign k default_QDir m))"

subsection \<open>Reading the buffer\<close>

text \<open>A little-endian unsigned number from bytes (the byte order of the Linux targets).\<close>

definition le_nat :: "string \<Rightarrow> nat" where
  "le_nat bs = foldr (\<lambda>b n. of_char b + 256 * n) bs 0"

definition le32 :: "string \<Rightarrow> 32 word" where
  "le32 bs = word_of_nat (le_nat (take 4 bs))"

text \<open>
  \<^verbatim>\<open>(struct inotify_event*) p\<close>, with \<open>bs\<close> the memory from \<^verbatim>\<open>p\<close> to the end of the
  buffer. \<open>None\<close> when the header or the terminating NUL of the name is not inside.
\<close>

definition currentEvent :: "string \<Rightarrow> inotify_event option" where
  "currentEvent bs =
     (if length bs < sizeof_inotify_event \<or> NUL \<notin> set (drop sizeof_inotify_event bs) then None
      else Some \<lparr>ie_wd = le32 bs, ie_mask = le32 (drop 4 bs), ie_cookie = le32 (drop 8 bs),
                 ie_len = le32 (drop 12 bs),
                 ie_name = takeWhile (\<lambda>c. c \<noteq> NUL) (drop sizeof_inotify_event bs)\<rparr>)"

text \<open>
  The \<^verbatim>\<open>for\<close> loop of \<^verbatim>\<open>readEventsFromFd\<close>: \<open>p\<close> is the offset of \<^verbatim>\<open>p\<close> in
  \<^verbatim>\<open>buffer\<close>, \<open>m\<close> the table, \<open>events\<close> the vector built so far.
\<close>

function readLoop ::
  "(QDir \<Rightarrow> string) \<Rightarrow> string \<Rightarrow> int \<Rightarrow> nat \<Rightarrow> (int \<times> QDir) list \<Rightarrow> INotifyEvent list
     \<Rightarrow> (error + INotifyEvent list) \<times> (int \<times> QDir) list" where
  "readLoop absP buffer rv p m events =
     (if int p < rv then
        (case currentEvent (drop p buffer) of
           None \<Rightarrow> (Inl BufferOverrun, m)
         | Some e \<Rightarrow>
             (case map_index m (sint (ie_wd e)) of
                (directory, m') \<Rightarrow>
                  readLoop absP buffer rv (p + (sizeof_inotify_event + unat (ie_len e))) m'
                    (events @ [INotifyEvent (ie_mask e) (absP directory @ ''/'' @ ie_name e)])))
      else (Inr events, m))"
  by pat_completeness auto
termination
  by (relation "measure (\<lambda>(absP, buffer, rv, p, m, events). nat rv - p)")
     (auto simp: sizeof_inotify_event_def)

declare readLoop.simps [simp del]

definition bufSize :: nat where "bufSize = 4096"

text \<open>\<^verbatim>\<open>PrivateData::readEventsFromFd\<close>.\<close>

definition readEventsFromFd ::
  "'os environment \<Rightarrow> 'os PrivateData \<Rightarrow> (error + INotifyEvent list) \<times> 'os PrivateData" where
  "readEventsFromFd env d =
     (case read_fd env (kernel d) bufSize of
        ((rv, errno, buffer), os') \<Rightarrow>
          (if rv = 0 then
             (Inl (FileSystemWatcherError ''read() on inotify FD must never return 0''),
              d\<lparr>kernel := os'\<rparr>)
           else if rv = -1 then
             (if errno = EAGAIN then (Inr [], d\<lparr>kernel := os'\<rparr>)
              else (Inl (FileSystemWatcherError
                           (''Failed to read from inotify fd: '' @ strerror env errno)),
                    d\<lparr>kernel := os'\<rparr>))
           else
             (case readLoop (absolutePath env) buffer rv 0 (watchFdMap d) [] of
                (r, m') \<Rightarrow> (r, d\<lparr>kernel := os', watchFdMap := m'\<rparr>))))"

subsection \<open>The records the kernel writes\<close>

text \<open>
  The other direction, used to state what a buffer of records is: the bytes of
  \<^verbatim>\<open>struct inotify_event\<close> for given field values. The name field is \<^verbatim>\<open>len\<close> bytes
  long: the name, then NUL bytes up to \<^verbatim>\<open>len\<close>.
\<close>

fun enc_le :: "nat \<Rightarrow> nat \<Rightarrow> string" where
  "enc_le 0 n = []"
| "enc_le (Suc k) n = char_of n # enc_le k (n div 256)"

definition bytes32 :: "32 word \<Rightarrow> string" where
  "bytes32 w = enc_le 4 (unat w)"

definition raw_record :: "inotify_event \<Rightarrow> string" where
  "raw_record e =
     bytes32 (ie_wd e) @ bytes32 (ie_mask e) @ bytes32 (ie_cookie e) @ bytes32 (ie_len e)
     @ ie_name e @ replicate (unat (ie_len e) - length (ie_name e)) NUL"

text \<open>
  A record with a name: the name has no NUL byte and is shorter than the name field, so
  at least one NUL ends it.
\<close>

definition record_ok :: "inotify_event \<Rightarrow> bool" where
  "record_ok e = (NUL \<notin> set (ie_name e) \<and> length (ie_name e) < unat (ie_len e))"

subsection \<open>Registration\<close>

text \<open>\<^verbatim>\<open>PrivateData::startWatching(const QDir&)\<close>.\<close>

definition startWatching ::
  "'os environment \<Rightarrow> 'os PrivateData \<Rightarrow> QDir \<Rightarrow> bool \<times> 'os PrivateData" where
  "startWatching env d directory =
     (if \<not> dir_exists env (kernel d) directory then
        (True, d\<lparr>cerr := cerr d @
                 [''Warning: directory '' @ absolutePath env directory @ '' does not exist, skipping'']\<rparr>)
      else
        (case inotify_add_watch env (kernel d) (absolutePath env directory)
                (fileChangeEvents OR fileRemovalEvents) of
           ((watchFd, errno), os') \<Rightarrow>
             (if watchFd = -1 then
                (False, d\<lparr>kernel := os',
                          cerr := cerr d @ [''Failed to start watching: '' @ strerror env errno]\<rparr>)
              else
                (True, d\<lparr>kernel := os',
                         watchFdMap := map_assign watchFd directory (watchFdMap d),
                         eventsLoopTimer := True\<rparr>))))"

text \<open>\<^verbatim>\<open>PrivateData::stopWatching(int)\<close>.\<close>

definition stopWatching_fd ::
  "'os environment \<Rightarrow> 'os PrivateData \<Rightarrow> int \<Rightarrow> bool \<times> 'os PrivateData" where
  "stopWatching_fd env d watchFd =
     (case inotify_rm_watch env (kernel d) watchFd of
        ((r, errno), os') \<Rightarrow>
          (if r = -1 then
             (False, d\<lparr>kernel := os',
                       cerr := cerr d @ [''Failed to stop watching: '' @ strerror env errno]\<rparr>)
           else
             (True, d\<lparr>kernel := os',
                      watchFdMap := map_erase watchFd (watchFdMap d),
                      eventsLoopTimer := False\<rparr>)))"

text \<open>
  \<^verbatim>\<open>PrivateData::stopWatching()\<close>: the loop takes \<^verbatim>\<open>watchFdMap.begin()\<close>, the entry
  with the least key, until the table is empty or one call fails.
\<close>

function stopWatching :: "'os environment \<Rightarrow> 'os PrivateData \<Rightarrow> bool \<times> 'os PrivateData" where
  "stopWatching env d =
     (case watchFdMap d of
        [] \<Rightarrow> (True, d\<lparr>eventsLoopTimer := False\<rparr>)
      | pair # _ \<Rightarrow>
          (case stopWatching_fd env d (fst pair) of
             (False, d') \<Rightarrow> (False, d')
           | (True, d') \<Rightarrow> stopWatching env d'))"
  by pat_completeness auto
termination
  by (relation "measure (\<lambda>(env, d). length (watchFdMap d))")
     (auto simp: stopWatching_fd_def map_erase_def less_Suc_eq_le split: prod.splits if_splits)

declare stopWatching.simps [simp del]

text \<open>
  The outcome "the loop stopped at entry \<open>n\<close>": the table is the old one from entry \<open>n\<close>
  on, and the result is that of the failed \<open>stopWatching_fd\<close> on the key of entry \<open>n\<close>.
\<close>

definition stopped_at :: "'os environment \<Rightarrow> 'os PrivateData \<Rightarrow> bool \<times> 'os PrivateData \<Rightarrow> nat \<Rightarrow> bool" where
  "stopped_at env d r n =
     (n < length (watchFdMap d) \<and> watchFdMap (snd r) = drop n (watchFdMap d)
      \<and> (\<exists>d0. watchFdMap d0 = drop n (watchFdMap d)
               \<and> stopWatching_fd env d0 (fst (watchFdMap d ! n)) = (False, snd r)))"

text \<open>
  The kernel's answers to \<^verbatim>\<open>inotify_rm_watch\<close> on the keys in turn, up to the first -1:
  how many calls succeeded before it, the kernel after the last call made, and the
  \<^verbatim>\<open>errno\<close> of the refused call (\<open>None\<close> when every call succeeded).
\<close>

fun rm_watch_run :: "'os environment \<Rightarrow> 'os \<Rightarrow> int list \<Rightarrow> nat \<times> 'os \<times> int option" where
  "rm_watch_run env os [] = (0, os, None)"
| "rm_watch_run env os (k # ks) =
     (case inotify_rm_watch env os k of
        ((r, errno), os') \<Rightarrow>
          (if r = -1 then (0, os', Some errno)
           else (case rm_watch_run env os' ks of (n, os'', f) \<Rightarrow> (Suc n, os'', f))))"

subsection \<open>Classifying and emitting\<close>

text \<open>The body of the loop of \<^verbatim>\<open>FileSystemWatcher::readEvents\<close>, for one event.\<close>

definition emitSignal :: "INotifyEvent \<Rightarrow> signal list" where
  "emitSignal event =
     (if mask event AND fileChangeEvents \<noteq> 0 then [fileChanged (path event)]
      else if mask event AND fileRemovalEvents \<noteq> 0 then [fileRemoved (path event)]
      else [])"

text \<open>
  \<^verbatim>\<open>FileSystemWatcher::readEvents\<close>: the signals emitted, in order, or the exception
  that leaves the function.
\<close>

definition readEvents ::
  "'os environment \<Rightarrow> 'os PrivateData \<Rightarrow> (error + signal list) \<times> 'os PrivateData" where
  "readEvents env d =
     (case readEventsFromFd env d of
        (Inl e, d') \<Rightarrow> (Inl e, d')
      | (Inr events, d') \<Rightarrow> (Inr (concat (map emitSignal events)), d'))"

subsection \<open>A simulated kernel for the concrete scenarios\<close>

text \<open>
  A small stand-in for the collaborators, used only to run the definitions above on
  concrete inputs: the directories on disk, the kernel's watch descriptors with the
  next descriptor to hand out and the limit on their number, and the answers the next
  calls of \<^verbatim>\<open>read\<close> will give (none left: \<^verbatim>\<open>EAGAIN\<close>).
\<close>

record sim_os =
  existing :: "string list"
  watches :: "(int \<times> string) list"
  next_wd :: int
  max_watches :: nat
  pending :: "(int \<times> int \<times> string) list"

definition sim_absolutePath :: "QDir \<Rightarrow> string" where
  "sim_absolutePath dir = (case dir of QDir p \<Rightarrow> if p = [] then ''/home/user'' else p)"

definition sim_strerror :: "int \<Rightarrow> string" where
  "sim_strerror e =
     (if e = EAGAIN then ''Resource temporarily unavailable''
      else if e = EINVAL then ''Invalid argument''
      else if e = ENOSPC then ''No space left on device''
      else if e = ENOENT then ''No such file or directory''
      else ''Unknown error'')"

definition sim_env :: "sim_os environment" where
  "sim_env =
     \<lparr>read_fd = (\<lambda>os n. case pending os of
                            [] \<Rightarrow> ((-1, EAGAIN, []), os)
                          | r # rs \<Rightarrow> (r, os\<lparr>pending := rs\<rparr>)),
      inotify_add_watch = (\<lambda>os p msk.
         if p \<notin> set (existing os) then ((-1, ENOENT), os)
         else if max_watches os \<le> length (watches os) then ((-1, ENOSPC), os)
         else ((next_wd os, 0),
               os\<lparr>watches := watches os @ [(next_wd os, p)], next_wd := next_wd os + 1\<rparr>)),
      inotify_rm_watch = (\<lambda>os wd.
         if wd \<in> fst ` set (watches os)
         then ((0, 0), os\<lparr>watches := filter (\<lambda>w. fst w \<noteq> wd) (watches os)\<rparr>)
         else ((-1, EINVAL), os)),
      dir_exists = (\<lambda>os dir. sim_absolutePath dir \<in> set (existing os)),
      absolutePath = sim_absolutePath,
      strerror = sim_strerror\<rparr>"

text \<open>A watcher just constructed: nothing registered, two directories on disk.\<close>

definition sim_fresh :: "sim_os PrivateData" where
  "sim_fresh =
     \<lparr>eventsLoopTimer = False, watchFdMap = [],
      kernel = \<lparr>existing = [''/tmp/w'', ''/tmp/v''], watches = [], next_wd = 1,
                 max_watches = 2, pending = []\<rparr>,
      cerr = []\<rparr>"

text \<open>A watcher with /tmp/w registered under descriptor 1 and the kernel's limit reached.\<close>

definition sim_full :: "sim_os PrivateData" where
  "sim_full =
     \<lparr>eventsLoopTimer = True, watchFdMap = [(1, QDir ''/tmp/w'')],
      kernel = \<lparr>existing = [''/tmp/w'', ''/tmp/v''], watches = [(1, ''/tmp/w'')], next_wd = 2,
                 max_watches = 1, pending = []\<rparr>,
      cerr = []\<rparr>"

text \<open>The same watcher when the next \<^verbatim>\<open>read\<close> returns 0, and when it fails with \<^verbatim>\<open>EINVAL\<close>.\<close>

definition sim_zero :: "sim_os PrivateData" where
  "sim_zero = sim_full\<lparr>kernel := (kernel sim_full)\<lparr>pending := [(0, 0, [])]\<rparr>\<rparr>"

definition sim_broken :: "sim_os PrivateData" where
  "sim_broken = sim_full\<lparr>kernel := (kernel sim_full)\<lparr>pending := [(-1, EINVAL, [])]\<rparr>\<rparr>"

text \<open>A watcher with both directories registered, under descriptors 1 and 2.\<close>

definition sim_two :: "sim_os PrivateData" where
  "sim_two =
     \<lparr>eventsLoopTimer = True, watchFdMap = [(1, QDir ''/tmp/w''), (2, QDir ''/tmp/v'')],
      kernel = \<lparr>existing = [''/tmp/w'', ''/tmp/v''],
                 watches = [(1, ''/tmp/w''), (2, ''/tmp/v'')], next_wd = 3,
                 max_watches = 2, pending = []\<rparr>,
      cerr = []\<rparr>"

text \<open>
  Three records in one buffer of 96 bytes: a.txt closed after writing in /tmp/w, b.txt
  deleted in /tmp/v, c.txt created in /tmp/w; and the watcher about to read them.
\<close>

definition sim_records :: "inotify_event list" where
  "sim_records =
     [\<lparr>ie_wd = 1, ie_mask = IN_CLOSE_WRITE, ie_cookie = 0, ie_len = 16, ie_name = ''a.txt''\<rparr>,
      \<lparr>ie_wd = 2, ie_mask = IN_DELETE, ie_cookie = 0, ie_len = 16, ie_name = ''b.txt''\<rparr>,
      \<lparr>ie_wd = 1, ie_mask = IN_CREATE, ie_cookie = 0, ie_len = 16, ie_name = ''c.txt''\<rparr>]"

definition sim_buffer :: string where
  "sim_buffer =
     [CHR 0x01, CHR 0x00, CHR 0x00, CHR 0x00,  CHR 0x08, CHR 0x00, CHR 0x00, CHR 0x00,
      CHR 0x00, CHR 0x00, CHR 0x00, CHR 0x00,  CHR 0x10, CHR 0x00, CHR 0x00, CHR 0x00]
     @ ''a.txt'' @ replicate 11 (CHR 0x00) @
     [CHR 0x02, CHR 0x00, CHR 0x00, CHR 0x00,  CHR 0x00, CHR 0x02, CHR 0x00, CHR 0x00,
      CHR 0x00, CHR 0x00, CHR 0x00, CHR 0x00,  CHR 0x10, CHR 0x00, CHR 0x00, CHR 0x00]
     @ ''b.txt'' @ replicate 11 (CHR 0x00) @
     [CHR 0x01, CHR 0x00, CHR 0x00, CHR 0x00,  CHR 0x00, CHR 0x01, CHR 0x00, CHR 0x00,
      CHR 0x00, CHR 0x00, CHR 0x00, CHR 0x00,  CHR 0x10, CHR 0x00, CHR 0x00, CHR 0x00]
     @ ''c.txt'' @ replicate 11 (CHR 0x00)"

definition sim_poll :: "sim_os PrivateData" where
  "sim_poll = sim_two\<lparr>kernel := (kernel sim_two)\<lparr>pending := [(96, 0, sim_buffer)]\<rparr>\<rparr>"

text \<open>
  A watcher whose descriptor 2 the kernel no longer knows (the kernel drops a watch when
  its directory is deleted), and what the bulk \<open>stopWatching\<close> leaves of it.
\<close>

definition sim_lost :: "sim_os PrivateData" where
  "sim_lost =
     \<lparr>eventsLoopTimer = True,
      watchFdMap = [(1, QDir ''/tmp/w''), (2, QDir ''/tmp/v''), (3, QDir ''/tmp/u'')],
      kernel = \<lparr>existing = [''/tmp/w'', ''/tmp/u''],
                 watches = [(1, ''/tmp/w''), (3, ''/tmp/u'')], next_wd = 4,
                 max_watches = 8, pending = []\<rparr>,
      cerr = []\<rparr>"

definition sim_lost_after :: "sim_os PrivateData" where
  "sim_lost_after =
     \<lparr>eventsLoopTimer = False,
      watchFdMap = [(2, QDir ''/tmp/v''), (3, QDir ''/tmp/u'')],
      kernel = \<lparr>existing = [''/tmp/w'', ''/tmp/u''],
                 watches = [(3, ''/tmp/u'')], next_wd = 4,
                 max_watches = 8, pending = []\<rparr>,
      cerr = [''Failed to stop watching: Invalid argument'']\<rparr>"

text \<open>
  A record for a.txt in /tmp/w (descriptor 1) is queued in the kernel while both
  directories are watched; then descriptor 1 is deregistered. The record stays queued.
\<close>

definition sim_stale_buffer :: string where
  "sim_stale_buffer =
     [CHR 0x01, CHR 0x00, CHR 0x00, CHR 0x00,  CHR 0x08, CHR 0x00, CHR 0x00, CHR 0x00,
      CHR 0x00, CHR 0x00, CHR 0x00, CHR 0x00,  CHR 0x10, CHR 0x00, CHR 0x00, CHR 0x00]
     @ ''a.txt'' @ replicate 11 (CHR 0x00)"

definition sim_stale :: "sim_os PrivateData" where
  "sim_stale = sim_two\<lparr>kernel := (kernel sim_two)\<lparr>pending := [(32, 0, sim_stale_buffer)]\<rparr>\<rparr>"

definition sim_stale_stopped :: "sim_os PrivateData" where
  "sim_stale_stopped =
     \<lparr>eventsLoopTimer = False, watchFdMap = [(2, QDir ''/tmp/v'')],
      kernel = \<lparr>existing = [''/tmp/w'', ''/tmp/v''], watches = [(2, ''/tmp/v'')], next_wd = 3,
                 max_watches = 2, pending = [(32, 0, sim_stale_buffer)]\<rparr>,
      cerr = []\<rparr>"

text \<open>One record for b.txt moved out of /tmp/v (descriptor 2), and the watcher about to read it.\<close>

definition sim_moved_buffer :: string where
  "sim_moved_buffer =
     [CHR 0x02, CHR 0x00, CHR 0x00, CHR 0x00,  CHR 0x40, CHR 0x00, CHR 0x00, CHR 0x00,
      CHR 0x07, CHR 0x00, CHR 0x00, CHR 0x00,  CHR 0x10, CHR 0x00, CHR 0x00, CHR 0x00]
     @ ''b.txt'' @ replicate 11 (CHR 0x00)"

definition sim_moved :: "sim_os PrivateData" where
  "sim_moved = sim_two\<lparr>kernel := (kernel sim_two)\<lparr>pending := [(32, 0, sim_moved_buffer)]\<rparr>\<rparr>"

section \<open>Registration\<close>

text \<open>
  C2. For every directory that does not exist, \<open>startWatching\<close> writes the warning to
  \<^verbatim>\<open>std::cerr\<close>, returns true and changes nothing else: the table (and the timer and the
  kernel) are what they were.
\<close>

theorem startWatching_missing_directory:
  assumes "\<not> dir_exists env (kernel d) D"
  shows "startWatching env d D =
           (True, d\<lparr>cerr := cerr d @
              [''Warning: directory '' @ absolutePath env D @ '' does not exist, skipping'']\<rparr>)
         \<and> watchFdMap (snd (startWatching env d D)) = watchFdMap d"
  using assms by (simp add: startWatching_def)

theorem startWatching_missing_directory_witness:
  "\<not> dir_exists sim_env (kernel sim_fresh) (QDir ''/tmp/none'')
   \<and> startWatching sim_env sim_fresh (QDir ''/tmp/none'') =
       (True, sim_fresh\<lparr>cerr := [''Warning: directory /tmp/none does not exist, skipping'']\<rparr>)
   \<and> watchFdMap (snd (startWatching sim_env sim_fresh (QDir ''/tmp/none''))) = []"
proof -
  have h: "\<not> dir_exists sim_env (kernel sim_fresh) (QDir ''/tmp/none'')"
    by (simp add: sim_env_def sim_fresh_def sim_absolutePath_def)
  show ?thesis
    using h startWatching_missing_directory [OF h]
    by (simp add: sim_env_def sim_fresh_def sim_absolutePath_def)
qed

text \<open>
  C7. For an existing directory whose registration the kernel refuses
  (\<^verbatim>\<open>inotify_add_watch\<close> returns -1), \<open>startWatching\<close> writes the error to
  \<^verbatim>\<open>std::cerr\<close> and returns false, and the table is what it was before the call.
\<close>

theorem startWatching_registration_failure:
  assumes "dir_exists env (kernel d) D"
    and "inotify_add_watch env (kernel d) (absolutePath env D)
           (fileChangeEvents OR fileRemovalEvents) = ((-1, errno), os')"
  shows "fst (startWatching env d D) = False
         \<and> watchFdMap (snd (startWatching env d D)) = watchFdMap d
         \<and> cerr (snd (startWatching env d D)) =
             cerr d @ [''Failed to start watching: '' @ strerror env errno]"
  using assms by (simp add: startWatching_def)

theorem startWatching_registration_failure_witness:
  "dir_exists sim_env (kernel sim_full) (QDir ''/tmp/v'')
   \<and> inotify_add_watch sim_env (kernel sim_full) (absolutePath sim_env (QDir ''/tmp/v''))
        (fileChangeEvents OR fileRemovalEvents) = ((-1, ENOSPC), kernel sim_full)
   \<and> fst (startWatching sim_env sim_full (QDir ''/tmp/v'')) = False
   \<and> watchFdMap (snd (startWatching sim_env sim_full (QDir ''/tmp/v''))) = [(1, QDir ''/tmp/w'')]
   \<and> cerr (snd (startWatching sim_env sim_full (QDir ''/tmp/v''))) =
       [''Failed to start watching: No space left on device'']"
proof -
  have h1: "dir_exists sim_env (kernel sim_full) (QDir ''/tmp/v'')"
    by (simp add: sim_env_def sim_full_def sim_absolutePath_def)
  have h2: "inotify_add_watch sim_env (kernel sim_full) (absolutePath sim_env (QDir ''/tmp/v''))
        (fileChangeEvents OR fileRemovalEvents) = ((-1, ENOSPC), kernel sim_full)"
    by (simp add: sim_env_def sim_full_def sim_absolutePath_def)
  have s: "strerror sim_env ENOSPC = ''No space left on device''"
    by (simp add: sim_env_def sim_strerror_def ENOSPC_def EAGAIN_def EINVAL_def)
  show ?thesis
    using h1 h2 startWatching_registration_failure [OF h1 h2] s
    by (simp add: sim_full_def)
qed

section \<open>Deregistration\<close>

lemma sim_two_reached:
  "sim_two = snd (startWatching sim_env (snd (startWatching sim_env sim_fresh (QDir ''/tmp/w'')))
                    (QDir ''/tmp/v''))"
  by (simp add: sim_two_def startWatching_def sim_env_def sim_fresh_def sim_absolutePath_def)

lemma map_of_map_erase: "map_of (map_erase h m) k = (if k = h then None else map_of m k)"
  by (induction m) (auto simp: map_erase_def)

text \<open>
  C9. Whenever \<^verbatim>\<open>inotify_rm_watch\<close> succeeds, \<open>stopWatching_fd\<close> returns true, the
  handle is no longer a key of the table, every other entry is kept, and the timer is
  stopped, whatever else is still registered.
\<close>

theorem stopWatching_fd_success:
  assumes "inotify_rm_watch env (kernel d) h = ((r, errno), os')" and "r \<noteq> -1"
  shows "fst (stopWatching_fd env d h) = True
         \<and> watchFdMap (snd (stopWatching_fd env d h)) = map_erase h (watchFdMap d)
         \<and> map_of (watchFdMap (snd (stopWatching_fd env d h))) h = None
         \<and> (\<forall>k. k \<noteq> h \<longrightarrow>
               map_of (watchFdMap (snd (stopWatching_fd env d h))) k = map_of (watchFdMap d) k)
         \<and> eventsLoopTimer (snd (stopWatching_fd env d h)) = False"
  using assms by (simp add: stopWatching_fd_def map_of_map_erase)

theorem stopWatching_fd_success_witness:
  "inotify_rm_watch sim_env (kernel sim_two) 1 =
     ((0, 0), (kernel sim_two)\<lparr>watches := [(2, ''/tmp/v'')]\<rparr>)
   \<and> (0::int) \<noteq> -1
   \<and> fst (stopWatching_fd sim_env sim_two 1) = True
   \<and> watchFdMap (snd (stopWatching_fd sim_env sim_two 1)) = [(2, QDir ''/tmp/v'')]
   \<and> map_of (watchFdMap (snd (stopWatching_fd sim_env sim_two 1))) 1 = None
   \<and> map_of (watchFdMap (snd (stopWatching_fd sim_env sim_two 1))) 2 = Some (QDir ''/tmp/v'')
   \<and> eventsLoopTimer (snd (stopWatching_fd sim_env sim_two 1)) = False"
proof -
  have h1: "inotify_rm_watch sim_env (kernel sim_two) 1 =
     ((0, 0), (kernel sim_two)\<lparr>watches := [(2, ''/tmp/v'')]\<rparr>)"
    by (simp add: sim_env_def sim_two_def)
  have h2: "(0::int) \<noteq> -1" by simp
  have m: "map_erase 1 (watchFdMap sim_two) = [(2, QDir ''/tmp/v'')]"
    by (simp add: map_erase_def sim_two_def)
  show ?thesis
    using h1 h2 stopWatching_fd_success [OF h1 h2] m by simp
qed

lemma map_ok_Cons: "map_ok (p # m) \<longleftrightarrow> (\<forall>e \<in> set m. fst p < fst e) \<and> map_ok m"
  by (auto simp: map_ok_def)

lemma map_erase_begin:
  assumes "map_ok (p # m)"
  shows "map_erase (fst p) (p # m) = m"
proof -
  from assms have "\<forall>e \<in> set m. fst e \<noteq> fst p"
    by (auto simp: map_ok_Cons)
  then have "filter (\<lambda>e. fst e \<noteq> fst p) m = m"
    by (simp add: filter_id_conv)
  then show ?thesis by (simp add: map_erase_def)
qed

lemma set_map_assign: "set (map_assign k v m) \<subseteq> insert (k, v) (set m)"
  by (induction m) (auto split: if_splits)

lemma map_ok_assign: "map_ok m \<Longrightarrow> map_ok (map_assign k v m)"
proof (induction m)
  case Nil
  show ?case by (simp add: map_ok_def)
next
  case (Cons p m)
  obtain k' v' where p: "p = (k', v')" by (cases p)
  from Cons.prems have gt: "\<forall>e \<in> set m. k' < fst e" and ok: "map_ok m"
    by (simp_all add: map_ok_Cons p)
  show ?case
  proof (cases "k < k'")
    case True
    with Cons.prems gt show ?thesis
      by (auto simp: p map_ok_Cons)
  next
    case False
    show ?thesis
    proof (cases "k = k'")
      case True
      with gt ok show ?thesis by (simp add: p map_ok_Cons)
    next
      case ne: False
      with False have "k' < k" by simp
      moreover have "map_ok (map_assign k v m)" using ok by (rule Cons.IH)
      ultimately show ?thesis
        using False ne gt set_map_assign [of k v m] by (auto simp: p map_ok_Cons)
    qed
  qed
qed

lemma map_ok_erase: "map_ok m \<Longrightarrow> map_ok (map_erase k m)"
  by (simp add: map_ok_def map_erase_def sorted_wrt_filter sorted_wrt_map)

lemma stopWatching_fd_failure:
  "fst (stopWatching_fd env d h) = False \<Longrightarrow>
     watchFdMap (snd (stopWatching_fd env d h)) = watchFdMap d"
  by (auto simp: stopWatching_fd_def split: prod.splits if_splits)

lemma stopWatching_fd_True:
  "fst (stopWatching_fd env d h) \<Longrightarrow>
     watchFdMap (snd (stopWatching_fd env d h)) = map_erase h (watchFdMap d)"
  by (auto simp: stopWatching_fd_def split: prod.splits if_splits)

lemma stopWatching_outcome:
  "map_ok (watchFdMap d) \<Longrightarrow>
     (fst (stopWatching env d) \<and> watchFdMap (snd (stopWatching env d)) = []
        \<and> \<not> eventsLoopTimer (snd (stopWatching env d)))
     \<or> (\<not> fst (stopWatching env d) \<and> (\<exists>n. stopped_at env d (stopWatching env d) n))"
proof (induction env d rule: stopWatching.induct)
  case (1 env d)
  show ?case
  proof (cases "watchFdMap d")
    case Nil
    then show ?thesis by (subst (1 2 3) stopWatching.simps) simp
  next
    case (Cons pair rest)
    obtain b d' where r: "stopWatching_fd env d (fst pair) = (b, d')"
      by (cases "stopWatching_fd env d (fst pair)")
    show ?thesis
    proof (cases b)
      case False
      have res: "stopWatching env d = (False, d')"
        by (subst stopWatching.simps) (simp add: Cons r False)
      have "watchFdMap d' = watchFdMap d"
        using stopWatching_fd_failure [of env d "fst pair"] r False by simp
      then have "stopped_at env d (False, d') 0"
        using r False Cons by (auto simp: stopped_at_def)
      then show ?thesis by (auto simp: res)
    next
      case True
      have res: "stopWatching env d = stopWatching env d'"
        by (subst stopWatching.simps) (simp add: Cons r True)
      have m': "watchFdMap d' = rest"
        using stopWatching_fd_True [of env d "fst pair"] r True "1.prems" Cons
        by (simp add: map_erase_begin)
      have ok': "map_ok (watchFdMap d')"
        using "1.prems" Cons m' by (simp add: map_ok_Cons)
      have "b = True" using True by simp
      from "1.IH" [OF Cons r [symmetric] this ok']
      consider "fst (stopWatching env d')" "watchFdMap (snd (stopWatching env d')) = []"
          "\<not> eventsLoopTimer (snd (stopWatching env d'))"
        | n where "\<not> fst (stopWatching env d')" "stopped_at env d' (stopWatching env d') n"
        by blast
      then show ?thesis
      proof cases
        case 1
        then show ?thesis by (simp add: res)
      next
        case 2
        from 2(2) have "stopped_at env d (stopWatching env d') (Suc n)"
          by (simp add: stopped_at_def m' Cons)
        with 2(1) show ?thesis by (auto simp: res)
      qed
    qed
  qed
qed

lemma rm_watch_run_count:
  "rm_watch_run env os ks = (n, os', f) \<Longrightarrow>
     (f = None \<longrightarrow> n = length ks) \<and> (f \<noteq> None \<longrightarrow> n < length ks)"
proof (induction ks arbitrary: os n os' f)
  case Nil
  then show ?case by simp
next
  case (Cons k ks)
  obtain r errno os1 where k: "inotify_rm_watch env os k = ((r, errno), os1)"
    by (metis surj_pair)
  show ?case
  proof (cases "r = -1")
    case True
    with Cons.prems k show ?thesis by auto
  next
    case False
    obtain n1 os2 f1 where run: "rm_watch_run env os1 ks = (n1, os2, f1)"
      by (metis surj_pair)
    from Cons.IH [OF run] Cons.prems k False run show ?thesis by auto
  qed
qed

lemma stopWatching_fd_refused:
  assumes "inotify_rm_watch env (kernel d) k = ((-1, errno), os')"
  shows "stopWatching_fd env d k =
           (False, d\<lparr>kernel := os',
                     cerr := cerr d @ [''Failed to stop watching: '' @ strerror env errno]\<rparr>)"
  using assms by (simp add: stopWatching_fd_def)

lemma stopWatching_fd_accepted:
  assumes "inotify_rm_watch env (kernel d) k = ((r, errno), os')" and "r \<noteq> -1"
  shows "stopWatching_fd env d k =
           (True, d\<lparr>kernel := os', watchFdMap := map_erase k (watchFdMap d),
                    eventsLoopTimer := False\<rparr>)"
  using assms by (simp add: stopWatching_fd_def)

lemma stopWatching_run:
  assumes "map_ok (watchFdMap d)"
    and "rm_watch_run env (kernel d) (map fst (watchFdMap d)) = (n, os', f)"
  shows "stopWatching env d =
           (case f of
              None \<Rightarrow> (True, d\<lparr>kernel := os', watchFdMap := [], eventsLoopTimer := False\<rparr>)
            | Some errno \<Rightarrow>
                (False, d\<lparr>kernel := os', watchFdMap := drop n (watchFdMap d),
                          eventsLoopTimer := (n = 0 \<and> eventsLoopTimer d),
                          cerr := cerr d @ [''Failed to stop watching: '' @ strerror env errno]\<rparr>))"
  using assms
proof (induction "watchFdMap d" arbitrary: d n os' f)
  case Nil
  from Nil(1) [symmetric] Nil(3) have "n = 0" "os' = kernel d" "f = None"
    by simp_all
  moreover have "stopWatching env d = (True, d\<lparr>eventsLoopTimer := False\<rparr>)"
    by (subst stopWatching.simps) (simp add: Nil(1) [symmetric])
  moreover have "d\<lparr>kernel := kernel d, watchFdMap := [], eventsLoopTimer := False\<rparr> =
      d\<lparr>eventsLoopTimer := False\<rparr>"
    using Nil(1) by simp
  ultimately show ?case by simp
next
  case (Cons p rest)
  have m: "watchFdMap d = p # rest" using Cons.hyps(2) by simp
  obtain r errno os1 where k: "inotify_rm_watch env (kernel d) (fst p) = ((r, errno), os1)"
    by (metis surj_pair)
  show ?case
  proof (cases "r = -1")
    case True
    from Cons.prems(2) k True have res: "n = 0" "os' = os1" "f = Some errno"
      by (simp_all add: m)
    have "stopWatching env d =
        (False, d\<lparr>kernel := os1,
                  cerr := cerr d @ [''Failed to stop watching: '' @ strerror env errno]\<rparr>)"
      using k True
      by (subst stopWatching.simps) (simp add: m stopWatching_fd_refused)
    moreover have "d\<lparr>kernel := os1, watchFdMap := watchFdMap d,
                     eventsLoopTimer := eventsLoopTimer d,
                     cerr := cerr d @ [''Failed to stop watching: '' @ strerror env errno]\<rparr> =
        d\<lparr>kernel := os1,
          cerr := cerr d @ [''Failed to stop watching: '' @ strerror env errno]\<rparr>"
      by simp
    ultimately show ?thesis by (simp add: res)
  next
    case False
    define d1 where "d1 = d\<lparr>kernel := os1, watchFdMap := rest, eventsLoopTimer := False\<rparr>"
    have erase: "map_erase (fst p) (watchFdMap d) = rest"
      using Cons.prems(1) m by (simp add: map_erase_begin)
    have step: "stopWatching_fd env d (fst p) = (True, d1)"
      using stopWatching_fd_accepted [OF k False] by (simp add: erase d1_def)
    have unfold: "stopWatching env d = stopWatching env d1"
      by (subst stopWatching.simps) (simp add: m step)
    obtain n1 os2 f1 where run: "rm_watch_run env os1 (map fst rest) = (n1, os2, f1)"
      by (metis surj_pair)
    from Cons.prems(2) k False run have res: "n = Suc n1" "os' = os2" "f = f1"
      by (simp_all add: m)
    have ok1: "map_ok (watchFdMap d1)"
      using Cons.prems(1) m by (simp add: d1_def map_ok_Cons)
    have run1: "rm_watch_run env (kernel d1) (map fst (watchFdMap d1)) = (n1, os2, f1)"
      using run by (simp add: d1_def)
    have "rest = watchFdMap d1" by (simp add: d1_def)
    from Cons.hyps(1) [OF this ok1 run1] show ?thesis
      by (simp add: unfold res d1_def m split: option.splits)
  qed
qed

text \<open>
  C8. With the table in key order, the bulk \<open>stopWatching\<close> is decided by the kernel's
  answers on the keys in turn (\<open>rm_watch_run\<close>). When every \<^verbatim>\<open>inotify_rm_watch\<close>
  succeeds it returns true with an empty table and the timer stopped. When the call on
  entry \<open>n\<close> is the first refused one it returns false at once: the table is the old one
  from entry \<open>n\<close> on (the refused entry and all later ones), the error is logged, and no
  further call is made. In particular a refusal on the first entry returns false with the
  table as it was. So the result is always one of these two shapes. A single
  \<open>stopWatching_fd\<close> that is refused returns false and leaves the table as it was.
\<close>

theorem stopWatching_all_or_rest:
  assumes "map_ok (watchFdMap d)"
  shows "((fst (stopWatching env d) \<and> watchFdMap (snd (stopWatching env d)) = []
            \<and> \<not> eventsLoopTimer (snd (stopWatching env d)))
          \<or> (\<not> fst (stopWatching env d)
              \<and> (\<exists>n d0. n < length (watchFdMap d)
                    \<and> watchFdMap d0 = drop n (watchFdMap d)
                    \<and> stopWatching_fd env d0 (fst (watchFdMap d ! n)) =
                        (False, snd (stopWatching env d))
                    \<and> watchFdMap (snd (stopWatching env d)) = drop n (watchFdMap d))))
         \<and> (\<not> fst (stopWatching_fd env d h) \<longrightarrow>
               watchFdMap (snd (stopWatching_fd env d h)) = watchFdMap d)
         \<and> (rm_watch_run env (kernel d) (map fst (watchFdMap d)) = (n, os', f) \<longrightarrow>
               (f = None \<longrightarrow> n = length (watchFdMap d))
               \<and> (f \<noteq> None \<longrightarrow> n < length (watchFdMap d))
               \<and> stopWatching env d =
                   (case f of
                      None \<Rightarrow>
                        (True, d\<lparr>kernel := os', watchFdMap := [], eventsLoopTimer := False\<rparr>)
                    | Some errno \<Rightarrow>
                        (False, d\<lparr>kernel := os', watchFdMap := drop n (watchFdMap d),
                                  eventsLoopTimer := (n = 0 \<and> eventsLoopTimer d),
                                  cerr := cerr d @
                                    [''Failed to stop watching: '' @ strerror env errno]\<rparr>)))
         \<and> (inotify_rm_watch env (kernel d) h = ((-1, e), os1) \<longrightarrow>
               stopWatching_fd env d h =
                 (False, d\<lparr>kernel := os1,
                           cerr := cerr d @ [''Failed to stop watching: '' @ strerror env e]\<rparr>)
               \<and> (watchFdMap d \<noteq> [] \<and> h = fst (hd (watchFdMap d)) \<longrightarrow>
                     stopWatching env d =
                       (False, d\<lparr>kernel := os1,
                                 cerr := cerr d @
                                   [''Failed to stop watching: '' @ strerror env e]\<rparr>)))"
proof -
  have single: "\<not> fst (stopWatching_fd env d h) \<longrightarrow>
          watchFdMap (snd (stopWatching_fd env d h)) = watchFdMap d"
    using stopWatching_fd_failure [of env d h] by simp
  from stopWatching_outcome [OF assms, of env]
  have shape: "(fst (stopWatching env d) \<and> watchFdMap (snd (stopWatching env d)) = []
            \<and> \<not> eventsLoopTimer (snd (stopWatching env d)))
          \<or> (\<not> fst (stopWatching env d)
              \<and> (\<exists>n d0. n < length (watchFdMap d)
                    \<and> watchFdMap d0 = drop n (watchFdMap d)
                    \<and> stopWatching_fd env d0 (fst (watchFdMap d ! n)) =
                        (False, snd (stopWatching env d))
                    \<and> watchFdMap (snd (stopWatching env d)) = drop n (watchFdMap d)))"
    unfolding stopped_at_def by blast
  have run: "rm_watch_run env (kernel d) (map fst (watchFdMap d)) = (n, os', f) \<longrightarrow>
               (f = None \<longrightarrow> n = length (watchFdMap d))
               \<and> (f \<noteq> None \<longrightarrow> n < length (watchFdMap d))
               \<and> stopWatching env d =
                   (case f of
                      None \<Rightarrow>
                        (True, d\<lparr>kernel := os', watchFdMap := [], eventsLoopTimer := False\<rparr>)
                    | Some errno \<Rightarrow>
                        (False, d\<lparr>kernel := os', watchFdMap := drop n (watchFdMap d),
                                  eventsLoopTimer := (n = 0 \<and> eventsLoopTimer d),
                                  cerr := cerr d @
                                    [''Failed to stop watching: '' @ strerror env errno]\<rparr>))"
  proof
    assume r: "rm_watch_run env (kernel d) (map fst (watchFdMap d)) = (n, os', f)"
    from rm_watch_run_count [OF r] stopWatching_run [OF assms r]
    show "(f = None \<longrightarrow> n = length (watchFdMap d))
               \<and> (f \<noteq> None \<longrightarrow> n < length (watchFdMap d))
               \<and> stopWatching env d =
                   (case f of
                      None \<Rightarrow>
                        (True, d\<lparr>kernel := os', watchFdMap := [], eventsLoopTimer := False\<rparr>)
                    | Some errno \<Rightarrow>
                        (False, d\<lparr>kernel := os', watchFdMap := drop n (watchFdMap d),
                                  eventsLoopTimer := (n = 0 \<and> eventsLoopTimer d),
                                  cerr := cerr d @
                                    [''Failed to stop watching: '' @ strerror env errno]\<rparr>))"
      by simp
  qed
  have refused: "inotify_rm_watch env (kernel d) h = ((-1, e), os1) \<longrightarrow>
               stopWatching_fd env d h =
                 (False, d\<lparr>kernel := os1,
                           cerr := cerr d @ [''Failed to stop watching: '' @ strerror env e]\<rparr>)
               \<and> (watchFdMap d \<noteq> [] \<and> h = fst (hd (watchFdMap d)) \<longrightarrow>
                     stopWatching env d =
                       (False, d\<lparr>kernel := os1,
                                 cerr := cerr d @
                                   [''Failed to stop watching: '' @ strerror env e]\<rparr>))"
  proof (intro impI conjI)
    assume k: "inotify_rm_watch env (kernel d) h = ((-1, e), os1)"
    show fd: "stopWatching_fd env d h =
                 (False, d\<lparr>kernel := os1,
                           cerr := cerr d @ [''Failed to stop watching: '' @ strerror env e]\<rparr>)"
      using k by (rule stopWatching_fd_refused)
    assume "watchFdMap d \<noteq> [] \<and> h = fst (hd (watchFdMap d))"
    then obtain p rest where m: "watchFdMap d = p # rest" and h: "h = fst p"
      by (cases "watchFdMap d") auto
    show "stopWatching env d =
                       (False, d\<lparr>kernel := os1,
                                 cerr := cerr d @
                                   [''Failed to stop watching: '' @ strerror env e]\<rparr>)"
      using fd by (subst stopWatching.simps) (simp add: m h)
  qed
  from shape single run refused show ?thesis by (intro conjI)
qed

lemma stopWatching_sim_lost: "stopWatching sim_env sim_lost = (False, sim_lost_after)"
  by (simp add: stopWatching.simps stopWatching_fd_def map_erase_def sim_env_def sim_lost_def
      sim_lost_after_def sim_strerror_def EINVAL_def EAGAIN_def)

lemma stopWatching_sim_two:
  "stopWatching sim_env sim_two =
     (True, sim_two\<lparr>eventsLoopTimer := False, watchFdMap := [],
                     kernel := (kernel sim_two)\<lparr>watches := []\<rparr>\<rparr>)"
  by (simp add: stopWatching.simps stopWatching_fd_def map_erase_def sim_env_def sim_two_def)

theorem stopWatching_all_or_rest_witness:
  "map_ok (watchFdMap sim_lost)
   \<and> rm_watch_run sim_env (kernel sim_lost) (map fst (watchFdMap sim_lost)) =
       (1, kernel sim_lost_after, Some EINVAL)
   \<and> stopWatching sim_env sim_lost = (False, sim_lost_after)
   \<and> watchFdMap sim_lost_after = drop 1 (watchFdMap sim_lost)
   \<and> watchFdMap sim_lost_after = [(2, QDir ''/tmp/v''), (3, QDir ''/tmp/u'')]
   \<and> (\<exists>n d0. n < length (watchFdMap sim_lost)
         \<and> watchFdMap d0 = drop n (watchFdMap sim_lost)
         \<and> stopWatching_fd sim_env d0 (fst (watchFdMap sim_lost ! n)) =
             (False, snd (stopWatching sim_env sim_lost))
         \<and> watchFdMap (snd (stopWatching sim_env sim_lost)) = drop n (watchFdMap sim_lost))
   \<and> inotify_rm_watch sim_env (kernel sim_lost) 2 = ((-1, EINVAL), kernel sim_lost)
   \<and> \<not> fst (stopWatching_fd sim_env sim_lost 2)
   \<and> watchFdMap (snd (stopWatching_fd sim_env sim_lost 2)) = watchFdMap sim_lost
   \<and> map_ok (watchFdMap sim_lost_after)
   \<and> inotify_rm_watch sim_env (kernel sim_lost_after) 2 =
       ((-1, EINVAL), kernel sim_lost_after)
   \<and> watchFdMap sim_lost_after \<noteq> [] \<and> 2 = fst (hd (watchFdMap sim_lost_after))
   \<and> stopWatching sim_env sim_lost_after =
       (False, sim_lost_after\<lparr>cerr := cerr sim_lost_after @
                 [''Failed to stop watching: '' @ strerror sim_env EINVAL]\<rparr>)
   \<and> map_ok (watchFdMap sim_two)
   \<and> rm_watch_run sim_env (kernel sim_two) (map fst (watchFdMap sim_two)) =
       (2, (kernel sim_two)\<lparr>watches := []\<rparr>, None)
   \<and> stopWatching sim_env sim_two =
       (True, sim_two\<lparr>kernel := (kernel sim_two)\<lparr>watches := []\<rparr>, watchFdMap := [],
                       eventsLoopTimer := False\<rparr>)"
proof -
  have h: "map_ok (watchFdMap sim_lost)"
    by (simp add: map_ok_def sim_lost_def)
  have r: "rm_watch_run sim_env (kernel sim_lost) (map fst (watchFdMap sim_lost)) =
       (1, kernel sim_lost_after, Some EINVAL)"
    by (simp add: sim_env_def sim_lost_def sim_lost_after_def)
  have k: "inotify_rm_watch sim_env (kernel sim_lost) 2 = ((-1, EINVAL), kernel sim_lost)"
    by (simp add: sim_env_def sim_lost_def)
  have h2: "map_ok (watchFdMap sim_lost_after)"
    by (simp add: map_ok_def sim_lost_after_def)
  have k2: "inotify_rm_watch sim_env (kernel sim_lost_after) 2 =
       ((-1, EINVAL), kernel sim_lost_after)"
    by (simp add: sim_env_def sim_lost_after_def)
  have hd2: "watchFdMap sim_lost_after \<noteq> [] \<and> 2 = fst (hd (watchFdMap sim_lost_after))"
    by (simp add: sim_lost_after_def)
  have h3: "map_ok (watchFdMap sim_two)"
    by (simp add: map_ok_def sim_two_def)
  have r3: "rm_watch_run sim_env (kernel sim_two) (map fst (watchFdMap sim_two)) =
       (2, (kernel sim_two)\<lparr>watches := []\<rparr>, None)"
    by (simp add: sim_env_def sim_two_def)
  have t: "watchFdMap sim_lost_after = [(2, QDir ''/tmp/v''), (3, QDir ''/tmp/u'')]"
      "watchFdMap sim_lost_after = drop 1 (watchFdMap sim_lost)"
    by (simp_all add: sim_lost_after_def sim_lost_def)
  note a = stopWatching_all_or_rest [OF h, where env = sim_env and h = 2 and n = 1
      and os' = "kernel sim_lost_after" and f = "Some EINVAL" and e = EINVAL
      and ?os1.0 = "kernel sim_lost"]
  note b = stopWatching_all_or_rest [OF h2, where env = sim_env and h = 2 and e = EINVAL
      and ?os1.0 = "kernel sim_lost_after"]
  note c = stopWatching_all_or_rest [OF h3, where env = sim_env and n = 2
      and os' = "(kernel sim_two)\<lparr>watches := []\<rparr>" and f = None]
  have lost: "stopWatching sim_env sim_lost = (False, sim_lost_after)"
    by (rule stopWatching_sim_lost)
  have after: "stopWatching sim_env sim_lost_after =
       (False, sim_lost_after\<lparr>cerr := cerr sim_lost_after @
                 [''Failed to stop watching: '' @ strerror sim_env EINVAL]\<rparr>)"
    using b k2 hd2 by simp
  have two: "stopWatching sim_env sim_two =
       (True, sim_two\<lparr>kernel := (kernel sim_two)\<lparr>watches := []\<rparr>, watchFdMap := [],
                       eventsLoopTimer := False\<rparr>)"
    using c r3 by simp
  have ex: "\<exists>n d0. n < length (watchFdMap sim_lost)
         \<and> watchFdMap d0 = drop n (watchFdMap sim_lost)
         \<and> stopWatching_fd sim_env d0 (fst (watchFdMap sim_lost ! n)) =
             (False, snd (stopWatching sim_env sim_lost))
         \<and> watchFdMap (snd (stopWatching sim_env sim_lost)) = drop n (watchFdMap sim_lost)"
    using a lost by simp
  have single: "\<not> fst (stopWatching_fd sim_env sim_lost 2)"
      "watchFdMap (snd (stopWatching_fd sim_env sim_lost 2)) = watchFdMap sim_lost"
    using a k by simp_all
  from h r lost t ex k single h2 k2 hd2 after h3 r3 two show ?thesis
    by (intro conjI) simp_all
qed

subsection \<open>The table stays in key order\<close>

text \<open>
  \<open>map_ok\<close> holds of the empty table and every operation keeps it, so it holds in every
  state the watcher reaches.
\<close>

lemma map_ok_empty: "map_ok []"
  by (simp add: map_ok_def)

lemma map_index_unknown:
  "k \<notin> fst ` set m \<Longrightarrow> map_index m k = (default_QDir, map_assign k default_QDir m)"
proof -
  assume "k \<notin> fst ` set m"
  then have "map_of m k = None"
    by (simp add: map_of_eq_None_iff)
  then show ?thesis by (simp add: map_index_def)
qed

lemma map_ok_index: "map_ok m \<Longrightarrow> map_ok (snd (map_index m k))"
  by (simp add: map_index_def map_ok_assign split: option.splits)

lemma map_ok_readLoop:
  "map_ok m \<Longrightarrow> map_ok (snd (readLoop absP buffer rv p m events))"
proof (induction absP buffer rv p m events rule: readLoop.induct)
  case (1 absP buffer rv p m events)
  show ?case
  proof (cases "int p < rv")
    case False
    then show ?thesis using "1.prems" by (subst readLoop.simps) simp
  next
    case True
    show ?thesis
    proof (cases "currentEvent (drop p buffer)")
      case None
      then show ?thesis using True "1.prems" by (subst readLoop.simps) simp
    next
      case (Some e)
      obtain directory m' where mi: "map_index m (sint (ie_wd e)) = (directory, m')"
        by (cases "map_index m (sint (ie_wd e))")
      have "map_ok m'"
        using map_ok_index [OF "1.prems", of "sint (ie_wd e)"] mi by simp
      from "1.IH" [OF True Some mi [symmetric] this] show ?thesis
        by (subst readLoop.simps) (simp add: True Some mi)
    qed
  qed
qed

lemma map_ok_readEvents:
  "map_ok (watchFdMap d) \<Longrightarrow> map_ok (watchFdMap (snd (readEvents env d)))"
  using map_ok_readLoop [of "watchFdMap d"]
  by (auto simp: readEvents_def readEventsFromFd_def split: prod.splits sum.splits if_splits)
     (metis snd_conv)+

lemma map_ok_startWatching:
  "map_ok (watchFdMap d) \<Longrightarrow> map_ok (watchFdMap (snd (startWatching env d D)))"
  by (auto simp: startWatching_def map_ok_assign split: prod.splits)

lemma map_ok_stopWatching_fd:
  "map_ok (watchFdMap d) \<Longrightarrow> map_ok (watchFdMap (snd (stopWatching_fd env d h)))"
  by (auto simp: stopWatching_fd_def map_ok_erase split: prod.splits)

section \<open>Reading and classifying\<close>

text \<open>
  C5. When \<^verbatim>\<open>read\<close> returns -1 with \<^verbatim>\<open>errno = EAGAIN\<close>, \<open>readEvents\<close> emits no
  signal and raises nothing; only the kernel state moves on.
\<close>

theorem readEvents_no_data:
  assumes "read_fd env (kernel d) bufSize = ((-1, EAGAIN, buffer), os')"
  shows "readEvents env d = (Inr [], d\<lparr>kernel := os'\<rparr>)"
  using assms by (simp add: readEvents_def readEventsFromFd_def)

theorem readEvents_no_data_witness:
  "read_fd sim_env (kernel sim_full) bufSize = ((-1, EAGAIN, []), kernel sim_full)
   \<and> readEvents sim_env sim_full = (Inr [], sim_full)"
proof -
  have h: "read_fd sim_env (kernel sim_full) bufSize = ((-1, EAGAIN, []), kernel sim_full)"
    by (simp add: sim_env_def sim_full_def)
  show ?thesis
    using h readEvents_no_data [OF h] by simp
qed

text \<open>
  C6. When \<^verbatim>\<open>read\<close> returns 0, \<open>readEvents\<close> raises the error "must never return 0"
  and emits no signal; a \<^verbatim>\<open>read\<close> that fails with another \<^verbatim>\<open>errno\<close> than
  \<^verbatim>\<open>EAGAIN\<close> raises "Failed to read from inotify fd: ...", and the two errors differ.
\<close>

theorem readEvents_zero_bytes:
  assumes zero: "read_fd env (kernel d) bufSize = ((0, errno, buffer), os')"
    and failed: "read_fd env2 (kernel d2) bufSize = ((-1, errno2, buffer2), os2)"
      "errno2 \<noteq> EAGAIN"
  shows "readEvents env d =
           (Inl (FileSystemWatcherError ''read() on inotify FD must never return 0''),
            d\<lparr>kernel := os'\<rparr>)
         \<and> fst (readEvents env2 d2) =
             Inl (FileSystemWatcherError
                    (''Failed to read from inotify fd: '' @ strerror env2 errno2))
         \<and> fst (readEvents env d) \<noteq> fst (readEvents env2 d2)"
  using assms by (simp add: readEvents_def readEventsFromFd_def)

theorem readEvents_zero_bytes_witness:
  "read_fd sim_env (kernel sim_zero) bufSize = ((0, 0, []), kernel sim_full)
   \<and> read_fd sim_env (kernel sim_broken) bufSize = ((-1, EINVAL, []), kernel sim_full)
   \<and> EINVAL \<noteq> EAGAIN
   \<and> readEvents sim_env sim_zero =
       (Inl (FileSystemWatcherError ''read() on inotify FD must never return 0''), sim_full)
   \<and> fst (readEvents sim_env sim_broken) =
       Inl (FileSystemWatcherError ''Failed to read from inotify fd: Invalid argument'')
   \<and> fst (readEvents sim_env sim_zero) \<noteq> fst (readEvents sim_env sim_broken)"
proof -
  have h1: "read_fd sim_env (kernel sim_zero) bufSize = ((0, 0, []), kernel sim_full)"
    by (simp add: sim_env_def sim_zero_def sim_full_def)
  have h2: "read_fd sim_env (kernel sim_broken) bufSize = ((-1, EINVAL, []), kernel sim_full)"
    by (simp add: sim_env_def sim_broken_def sim_full_def)
  have h3: "EINVAL \<noteq> EAGAIN"
    by (simp add: EINVAL_def EAGAIN_def)
  have s: "strerror sim_env EINVAL = ''Invalid argument''"
    by (simp add: sim_env_def sim_strerror_def EAGAIN_def EINVAL_def)
  have k: "sim_zero\<lparr>kernel := kernel sim_full\<rparr> = sim_full"
    by (simp add: sim_zero_def)
  show ?thesis
    using h1 h2 h3 readEvents_zero_bytes [OF h1 h2 h3] s k by simp
qed

text \<open>
  C10. One event gives at most one signal. An event whose mask meets
  \<open>fileChangeEvents\<close> gives \<open>fileChanged\<close> alone, also when it meets
  \<open>fileRemovalEvents\<close> too, as \<^verbatim>\<open>IN_MOVED_FROM\<close> (in both masks) does. So a poll
  that read \<open>events\<close> emits the signals of each event in turn, no more signals than events.
\<close>

theorem emitSignal_at_most_one:
  "length (emitSignal event) \<le> 1
   \<and> (mask event AND fileChangeEvents \<noteq> 0 \<longrightarrow> emitSignal event = [fileChanged (path event)])
   \<and> IN_MOVED_FROM AND fileChangeEvents \<noteq> 0
   \<and> IN_MOVED_FROM AND fileRemovalEvents \<noteq> 0
   \<and> emitSignal (INotifyEvent IN_MOVED_FROM p) = [fileChanged p]
   \<and> (readEventsFromFd env d = (Inr events, d') \<longrightarrow>
         readEvents env d = (Inr (concat (map emitSignal events)), d')
         \<and> length (concat (map emitSignal events)) \<le> length events)"
proof -
  have one: "length (emitSignal e) \<le> 1" for e
    by (simp add: emitSignal_def)
  have "length (concat (map emitSignal es)) \<le> length es" for es
  proof (induction es)
    case Nil
    show ?case by simp
  next
    case (Cons e es)
    with one [of e] show ?case by simp
  qed
  moreover have "IN_MOVED_FROM AND fileChangeEvents \<noteq> 0"
    by (simp add: IN_MOVED_FROM_def fileChangeEvents_def IN_CLOSE_WRITE_def IN_MOVE_def
        IN_MOVED_TO_def)
  moreover have "IN_MOVED_FROM AND fileRemovalEvents \<noteq> 0"
    by (simp add: IN_MOVED_FROM_def fileRemovalEvents_def IN_DELETE_def)
  ultimately show ?thesis
    using one [of event] by (simp add: emitSignal_def readEvents_def)
qed

lemma currentEvent_sim_moved_buffer:
  "currentEvent sim_moved_buffer =
     Some \<lparr>ie_wd = 2, ie_mask = IN_MOVED_FROM, ie_cookie = 7, ie_len = 16, ie_name = ''b.txt''\<rparr>"
  by (simp add: currentEvent_def sizeof_inotify_event_def le32_def le_nat_def NUL_def
      sim_moved_buffer_def IN_MOVED_FROM_def)

lemma readEventsFromFd_sim_moved:
  "readEventsFromFd sim_env sim_moved =
     (Inr [INotifyEvent IN_MOVED_FROM ''/tmp/v/b.txt''], sim_two)"
proof -
  have "readLoop sim_absolutePath sim_moved_buffer 32 0
          [(1, QDir ''/tmp/w''), (2, QDir ''/tmp/v'')] [] =
        (Inr [INotifyEvent IN_MOVED_FROM ''/tmp/v/b.txt''],
         [(1, QDir ''/tmp/w''), (2, QDir ''/tmp/v'')])"
    by (simp add: readLoop.simps currentEvent_sim_moved_buffer map_index_def
        sim_absolutePath_def sizeof_inotify_event_def)
  then show ?thesis
    by (simp add: readEventsFromFd_def sim_env_def sim_moved_def sim_two_def)
qed

theorem emitSignal_at_most_one_witness:
  "mask (INotifyEvent IN_MOVED_FROM ''/tmp/v/b.txt'') AND fileChangeEvents \<noteq> 0
   \<and> emitSignal (INotifyEvent IN_MOVED_FROM ''/tmp/v/b.txt'') = [fileChanged ''/tmp/v/b.txt'']
   \<and> readEventsFromFd sim_env sim_moved =
       (Inr [INotifyEvent IN_MOVED_FROM ''/tmp/v/b.txt''], sim_two)
   \<and> readEvents sim_env sim_moved = (Inr [fileChanged ''/tmp/v/b.txt''], sim_two)"
  using emitSignal_at_most_one [of "INotifyEvent IN_MOVED_FROM ''/tmp/v/b.txt''" _ sim_env
      sim_moved "[INotifyEvent IN_MOVED_FROM ''/tmp/v/b.txt'']" sim_two]
    readEventsFromFd_sim_moved
  by simp

lemma length_enc_le: "length (enc_le k n) = k"
  by (induction k arbitrary: n) auto

lemma le_nat_Cons: "le_nat (b # bs) = of_char b + 256 * le_nat bs"
  by (simp add: le_nat_def)

lemma le_nat_enc_le: "le_nat (enc_le k n) = n mod 256 ^ k"
proof (induction k arbitrary: n)
  case 0
  show ?case by (simp add: le_nat_def)
next
  case (Suc k)
  have "le_nat (enc_le (Suc k) n) = n mod 256 + 256 * (n div 256 mod 256 ^ k)"
    by (simp add: le_nat_Cons Suc.IH)
  also have "\<dots> = n mod (256 * 256 ^ k)"
    by (simp add: mod_mult2_eq)
  finally show ?case by simp
qed

lemma length_bytes32: "length (bytes32 w) = 4"
  by (simp add: bytes32_def length_enc_le)

lemma le32_bytes32: "le32 (bytes32 w @ bs) = w"
proof -
  have "take 4 (bytes32 w @ bs) = bytes32 w"
    by (simp add: length_bytes32)
  moreover have "unat w mod 256 ^ 4 = unat w"
    using unsigned_less [of w, where 'a = nat] by simp
  ultimately show ?thesis
    by (simp add: le32_def bytes32_def le_nat_enc_le)
qed

lemma length_raw_record:
  "record_ok e \<Longrightarrow> length (raw_record e) = sizeof_inotify_event + unat (ie_len e)"
  by (simp add: raw_record_def record_ok_def length_bytes32 sizeof_inotify_event_def)

lemma takeWhile_name:
  assumes "NUL \<notin> set n"
  shows "takeWhile (\<lambda>c. c \<noteq> NUL) (n @ NUL # bs) = n"
  using assms by (induction n) auto

lemma currentEvent_raw_record:
  assumes "record_ok e"
  shows "currentEvent (raw_record e @ bs) = Some e"
proof -
  obtain k where k: "unat (ie_len e) - length (ie_name e) = Suc k"
    using assms by (cases "unat (ie_len e) - length (ie_name e)") (auto simp: record_ok_def)
  let ?hdr = "bytes32 (ie_wd e) @ bytes32 (ie_mask e) @ bytes32 (ie_cookie e) @ bytes32 (ie_len e)"
  let ?tail = "ie_name e @ NUL # (replicate k NUL @ bs)"
  have split: "raw_record e @ bs = ?hdr @ ?tail"
    by (simp add: raw_record_def k)
  have d16: "drop sizeof_inotify_event (raw_record e @ bs) = ?tail"
    unfolding split by (simp add: sizeof_inotify_event_def length_bytes32)
  have d4: "drop 4 (raw_record e @ bs) = bytes32 (ie_mask e) @ bytes32 (ie_cookie e) @ bytes32 (ie_len e) @ ?tail"
    unfolding split by (simp add: length_bytes32)
  have d8: "drop 8 (raw_record e @ bs) = bytes32 (ie_cookie e) @ bytes32 (ie_len e) @ ?tail"
    unfolding split by (simp add: length_bytes32)
  have d12: "drop 12 (raw_record e @ bs) = bytes32 (ie_len e) @ ?tail"
    unfolding split by (simp add: length_bytes32)
  have w: "le32 (raw_record e @ bs) = ie_wd e"
    unfolding split by (simp add: le32_bytes32)
  have n: "takeWhile (\<lambda>c. c \<noteq> NUL) ?tail = ie_name e"
    using assms by (intro takeWhile_name) (simp add: record_ok_def)
  have len: "\<not> length (raw_record e @ bs) < sizeof_inotify_event"
    using assms by (simp add: length_raw_record)
  have nul: "NUL \<in> set ?tail" by simp
  show ?thesis
    unfolding currentEvent_def d16 d4 d8 d12 w n
    using len nul by (simp add: le32_bytes32)
qed

lemma map_index_known:
  assumes "k \<in> fst ` set m"
  shows "map_index m k = (the (map_of m k), m)"
proof -
  from assms obtain v where "map_of m k = Some v"
    by (metis domD dom_map_of_conv_image_fst)
  then show ?thesis by (simp add: map_index_def)
qed

lemma readLoop_records:
  assumes "\<forall>e \<in> set rs. record_ok e \<and> sint (ie_wd e) \<in> fst ` set m"
    and "buffer = pre @ concat (map raw_record rs) @ rest"
    and "rv = int (length pre + length (concat (map raw_record rs)))"
  shows "readLoop absP buffer rv (length pre) m events =
           (Inr (events @ map (\<lambda>e. INotifyEvent (ie_mask e)
                     (absP (the (map_of m (sint (ie_wd e)))) @ ''/'' @ ie_name e)) rs), m)"
  using assms
proof (induction rs arbitrary: pre events)
  case Nil
  then show ?case by (simp add: readLoop.simps)
next
  case (Cons e rs)
  from Cons.prems(1) have ok: "record_ok e" and known: "sint (ie_wd e) \<in> fst ` set m"
    and rest_ok: "\<forall>e \<in> set rs. record_ok e \<and> sint (ie_wd e) \<in> fst ` set m"
    by simp_all
  have len: "length (raw_record e) = sizeof_inotify_event + unat (ie_len e)"
    using ok by (rule length_raw_record)
  have "length pre < length pre + length (concat (map raw_record (e # rs)))"
    using len by (simp add: sizeof_inotify_event_def)
  then have lt: "int (length pre) < rv"
    unfolding Cons.prems(3) by (simp only: of_nat_less_iff)
  have cur: "currentEvent (drop (length pre) buffer) = Some e"
    using Cons.prems(2) currentEvent_raw_record [OF ok] by simp
  have buf: "buffer = (pre @ raw_record e) @ concat (map raw_record rs) @ rest"
    using Cons.prems(2) by simp
  have rv: "rv = int (length (pre @ raw_record e) + length (concat (map raw_record rs)))"
    using Cons.prems(3) by simp
  have next_p: "length pre + (sizeof_inotify_event + unat (ie_len e)) = length (pre @ raw_record e)"
    using len by simp
  have "readLoop absP buffer rv (length pre) m events =
          readLoop absP buffer rv (length (pre @ raw_record e)) m
            (events @ [INotifyEvent (ie_mask e)
                         (absP (the (map_of m (sint (ie_wd e)))) @ ''/'' @ ie_name e)])"
    by (subst readLoop.simps) (simp add: lt cur map_index_known [OF known] next_p del: length_append)
  also have "\<dots> = (Inr ((events @ [INotifyEvent (ie_mask e)
                         (absP (the (map_of m (sint (ie_wd e)))) @ ''/'' @ ie_name e)])
                     @ map (\<lambda>e. INotifyEvent (ie_mask e)
                         (absP (the (map_of m (sint (ie_wd e)))) @ ''/'' @ ie_name e)) rs), m)"
    by (rule Cons.IH [OF rest_ok buf rv])
  finally show ?case by simp
qed

text \<open>
  C1. Let a successful \<^verbatim>\<open>read\<close> fill the buffer with the records \<open>rs\<close> (one at least),
  each with a name and a handle that is a key of the table. Then \<open>readEvents\<close> raises
  nothing, leaves the table as it is, and emits, in the order of the records, for each
  record whose mask meets \<open>fileChangeEvents\<close> the signal \<open>fileChanged\<close>, else for each
  whose mask meets \<open>fileRemovalEvents\<close> the signal \<open>fileRemoved\<close>, and nothing for the
  others; the path is the absolute path of the directory of the handle, "/", the name.
\<close>

theorem readEvents_records:
  assumes "read_fd env (kernel d) bufSize = ((rv, errno, buffer), os')"
    and "rs \<noteq> []"
    and "\<forall>e \<in> set rs. record_ok e \<and> sint (ie_wd e) \<in> fst ` set (watchFdMap d)"
    and "buffer = concat (map raw_record rs) @ rest"
    and "rv = int (length (concat (map raw_record rs)))"
  shows "readEvents env d =
           (Inr (concat (map
              (\<lambda>e. let p = absolutePath env (the (map_of (watchFdMap d) (sint (ie_wd e))))
                            @ ''/'' @ ie_name e
                    in if ie_mask e AND fileChangeEvents \<noteq> 0 then [fileChanged p]
                       else if ie_mask e AND fileRemovalEvents \<noteq> 0 then [fileRemoved p]
                       else []) rs)),
            d\<lparr>kernel := os'\<rparr>)"
proof -
  obtain e rs' where rs: "rs = e # rs'"
    using assms(2) by (cases rs) auto
  with assms(3) have "record_ok e" by simp
  then have "0 < length (raw_record e)"
    by (simp add: length_raw_record sizeof_inotify_event_def)
  then have "0 < length (concat (map raw_record rs))"
    by (simp add: rs)
  then have pos: "0 < rv"
    unfolding assms(5) by (simp only: of_nat_0_less_iff)
  have loop: "readLoop (absolutePath env) buffer rv (length ([]::string)) (watchFdMap d) [] =
          (Inr ([] @ map (\<lambda>e. INotifyEvent (ie_mask e)
                     (absolutePath env (the (map_of (watchFdMap d) (sint (ie_wd e))))
                        @ ''/'' @ ie_name e)) rs), watchFdMap d)"
    by (rule readLoop_records [OF assms(3)]) (simp_all add: assms(4,5))
  have same: "d\<lparr>kernel := os', watchFdMap := watchFdMap d\<rparr> = d\<lparr>kernel := os'\<rparr>"
    by simp
  from pos have "rv \<noteq> 0" "rv \<noteq> -1" by simp_all
  then have "readEventsFromFd env d =
      (Inr (map (\<lambda>e. INotifyEvent (ie_mask e)
                     (absolutePath env (the (map_of (watchFdMap d) (sint (ie_wd e))))
                        @ ''/'' @ ie_name e)) rs), d\<lparr>kernel := os'\<rparr>)"
    using loop by (simp add: readEventsFromFd_def assms(1) same)
  then show ?thesis
    by (simp add: readEvents_def emitSignal_def Let_def comp_def cong: if_cong)
qed

lemma sim_buffer_records: "sim_buffer = concat (map raw_record sim_records)"
  by code_simp

theorem readEvents_records_witness:
  "read_fd sim_env (kernel sim_poll) bufSize = ((96, 0, sim_buffer), kernel sim_two)
   \<and> sim_records \<noteq> []
   \<and> list_all (\<lambda>e. record_ok e \<and> sint (ie_wd e) \<in> fst ` set (watchFdMap sim_poll))
        sim_records
   \<and> sim_buffer = concat (map raw_record sim_records) @ []
   \<and> 96 = int (length (concat (map raw_record sim_records)))
   \<and> readEvents sim_env sim_poll =
       (Inr [fileChanged ''/tmp/w/a.txt'', fileRemoved ''/tmp/v/b.txt''], sim_two)"
proof -
  have h1: "read_fd sim_env (kernel sim_poll) bufSize = ((96, 0, sim_buffer), kernel sim_two)"
    by (simp add: sim_env_def sim_poll_def sim_two_def)
  have h2: "sim_records \<noteq> []"
    by (simp add: sim_records_def)
  have h3: "\<forall>e \<in> set sim_records.
              record_ok e \<and> sint (ie_wd e) \<in> fst ` set (watchFdMap sim_poll)"
    by (simp add: sim_records_def record_ok_def NUL_def sim_poll_def sim_two_def)
  have h4: "sim_buffer = concat (map raw_record sim_records) @ []"
    by (simp add: sim_buffer_records)
  have h5: "96 = int (length (concat (map raw_record sim_records)))"
    by (simp add: sim_buffer_records [symmetric] sim_buffer_def)
  have k: "sim_poll\<lparr>kernel := kernel sim_two\<rparr> = sim_two"
    by (simp add: sim_poll_def)
  have ev: "concat (map
              (\<lambda>e. let p = absolutePath sim_env
                              (the (map_of (watchFdMap sim_poll) (sint (ie_wd e))))
                            @ ''/'' @ ie_name e
                    in if ie_mask e AND fileChangeEvents \<noteq> 0 then [fileChanged p]
                       else if ie_mask e AND fileRemovalEvents \<noteq> 0 then [fileRemoved p]
                       else []) sim_records) =
            [fileChanged ''/tmp/w/a.txt'', fileRemoved ''/tmp/v/b.txt'']"
    by (simp add: sim_records_def sim_poll_def sim_two_def sim_env_def sim_absolutePath_def
        fileChangeEvents_def fileRemovalEvents_def IN_CLOSE_WRITE_def IN_DELETE_def
        IN_CREATE_def IN_MOVE_def IN_MOVED_FROM_def IN_MOVED_TO_def)
  show ?thesis
    using h1 h2 h3 h4 h5 readEvents_records [OF h1 h2 h3 h4 h5] k ev
    by (simp add: list_all_iff)
qed

section \<open>Records whose handle is not in the table\<close>

text \<open>
  \<^verbatim>\<open>watchFdMap[currentEvent->wd]\<close> is \<^verbatim>\<open>std::map::operator[]\<close>: for a handle that is
  not a key it adds an entry with a default-constructed \<^verbatim>\<open>QDir\<close> and goes on with that
  directory. The run below is the scenario of two registered directories, the first one
  deregistered, and a poll that reads a record queued for it before.
\<close>

lemma sim_stale_stopped_reached: "stopWatching_fd sim_env sim_stale 1 = (True, sim_stale_stopped)"
  by (simp add: stopWatching_fd_def sim_env_def sim_stale_def sim_two_def sim_stale_stopped_def
      map_erase_def)

lemma currentEvent_sim_stale_buffer:
  "currentEvent sim_stale_buffer =
     Some \<lparr>ie_wd = 1, ie_mask = IN_CLOSE_WRITE, ie_cookie = 0, ie_len = 16, ie_name = ''a.txt''\<rparr>"
  by (simp add: currentEvent_def sizeof_inotify_event_def le32_def le_nat_def NUL_def
      sim_stale_buffer_def IN_CLOSE_WRITE_def)


lemma readLoop_sim_stale_buffer:
  "readLoop sim_absolutePath sim_stale_buffer 32 0 [(2, QDir ''/tmp/v'')] [] =
     (Inr [INotifyEvent IN_CLOSE_WRITE ''/home/user/a.txt''],
      [(1, QDir []), (2, QDir ''/tmp/v'')])"
  by (simp add: readLoop.simps currentEvent_sim_stale_buffer map_index_def default_QDir_def
      sim_absolutePath_def sizeof_inotify_event_def)

lemma readEventsFromFd_sim_stale_stopped:
  "readEventsFromFd sim_env sim_stale_stopped =
     (Inr [INotifyEvent IN_CLOSE_WRITE ''/home/user/a.txt''],
      sim_stale_stopped\<lparr>watchFdMap := [(1, QDir []), (2, QDir ''/tmp/v'')],
                         kernel := (kernel sim_stale_stopped)\<lparr>pending := []\<rparr>\<rparr>)"
  by (simp add: readEventsFromFd_def sim_env_def sim_stale_stopped_def
      readLoop_sim_stale_buffer)

text \<open>
  C3. After \<open>stopWatching_fd\<close> has succeeded on descriptor 1, which is then no key of
  the table, the poll that reads the record for a.txt bearing descriptor 1 raises nothing
  and emits \<open>fileChanged\<close> for a.txt under the current directory of the process
  (the specification expects no event for that record).
\<close>

theorem readEvents_deregistered_handle:
  "stopWatching_fd sim_env sim_stale 1 = (True, sim_stale_stopped)
   \<and> map_of (watchFdMap sim_stale_stopped) 1 = None
   \<and> fst (readEvents sim_env sim_stale_stopped) = Inr [fileChanged ''/home/user/a.txt'']"
proof -
  have "map_of (watchFdMap sim_stale_stopped) 1 = None"
    by (simp add: sim_stale_stopped_def)
  moreover have "emitSignal (INotifyEvent IN_CLOSE_WRITE ''/home/user/a.txt'') =
      [fileChanged ''/home/user/a.txt'']"
    by (simp add: emitSignal_def fileChangeEvents_def IN_CLOSE_WRITE_def)
  ultimately show ?thesis
    by (simp add: sim_stale_stopped_reached readEvents_def readEventsFromFd_sim_stale_stopped)
qed

text \<open>
  C4. The same poll changes the table: it starts with descriptor 2 alone and ends with
  an entry for descriptor 1 too, bound to the default directory (the specification expects
  the read path to leave the table as it is). The kernel does not know descriptor 1 any
  more, so the bulk \<open>stopWatching\<close> that follows fails on it.
\<close>

theorem readEvents_inserts_unknown_handle:
  "watchFdMap sim_stale_stopped = [(2, QDir ''/tmp/v'')]
   \<and> watchFdMap (snd (readEvents sim_env sim_stale_stopped)) =
       [(1, default_QDir), (2, QDir ''/tmp/v'')]
   \<and> watchFdMap (snd (readEvents sim_env sim_stale_stopped)) \<noteq> watchFdMap sim_stale_stopped
   \<and> fst (stopWatching sim_env (snd (readEvents sim_env sim_stale_stopped))) = False"
proof -
  have m: "watchFdMap sim_stale_stopped = [(2, QDir ''/tmp/v'')]"
    by (simp add: sim_stale_stopped_def)
  have r: "snd (readEvents sim_env sim_stale_stopped) =
      sim_stale_stopped\<lparr>watchFdMap := [(1, QDir []), (2, QDir ''/tmp/v'')],
                         kernel := (kernel sim_stale_stopped)\<lparr>pending := []\<rparr>\<rparr>"
    by (simp add: readEvents_def readEventsFromFd_sim_stale_stopped)
  have s: "fst (stopWatching sim_env (snd (readEvents sim_env sim_stale_stopped))) = False"
    unfolding r
    by (simp add: stopWatching.simps stopWatching_fd_def sim_env_def sim_stale_stopped_def)
  show ?thesis
    using m s by (simp add: r default_QDir_def)
qed

end
